theory Spec2Isabelle
  imports Main
begin

section \<open>The offline cache manager of sw.js\<close>

text \<open>
  The script registers three listeners (install, activate, fetch) over the host's cache
  storage and network. The cache storage and the network are made explicit here: a
  handler takes the storage (and the behaviour of the network and of the host) and
  returns what it hands to the host together with the storage it leaves behind.
\<close>

subsection \<open>Requests, responses, promises\<close>

text \<open>
  Of a request the script reads \<^verbatim>\<open>event.request.method\<close> (here \<open>method_name\<close>) and
  hands the request itself to \<^verbatim>\<open>fetch\<close> and to the caches. The caches read its URL
  and its headers: \<open>scheme\<close> is the URL's scheme, \<open>url\<close> is the rest of the URL without
  the fragment (a URL of the worker's own origin is written as its path, as the script
  writes them), \<open>fragment\<close> is the fragment, and \<open>headers\<close> gives the combined value of
  each header under its lower-case name.
\<close>

record request =
  method_name :: string
  scheme :: string
  url :: string
  fragment :: string
  headers :: "(string \<times> string) list"

text \<open>
  Of a response the caches read the status and the field values of the \<^verbatim>\<open>Vary\<close>
  header (header names in lower case, or \<open>*\<close>).
\<close>

record response =
  status :: nat
  vary :: "string list"
  body :: string

text \<open>A settled promise: resolved with a value, or rejected.\<close>

datatype 'a promise = Resolved 'a | Rejected

text \<open>
  The network as the script sees it through \<^verbatim>\<open>fetch\<close>: each request settles with
  a response (of any status) or rejects.
\<close>

type_synonym network = "request \<Rightarrow> response promise"

text \<open>
  The request the host builds from a path string \<open>p\<close>, as \<^verbatim>\<open>caches.match("/")\<close> and
  \<^verbatim>\<open>cache.addAll\<close> do: a GET request to that path of the worker's own origin (taken to
  be served over https), with no fragment and no headers.
\<close>

definition same_origin :: "string \<Rightarrow> request" where
  "same_origin p =
     \<lparr>method_name = ''GET'', scheme = ''https'', url = p, fragment = [], headers = []\<rparr>"

subsection \<open>The cache storage\<close>

text \<open>
  A cache (bucket) is a list of stored request-response pairs. The cache storage lists
  the named buckets in creation order, the order in which \<^verbatim>\<open>caches.keys()\<close> reports
  them and \<^verbatim>\<open>caches.match\<close> searches them.
\<close>

type_synonym cache = "(request \<times> response) list"

type_synonym cache_storage = "(string \<times> cache) list"

definition CACHE_NAME :: string where
  "CACHE_NAME = ''kr-close-report-v1''"

definition CORE_ASSETS :: "string list" where
  "CORE_ASSETS =
     [''/'', ''/index.html'', ''/manifest.webmanifest'', ''/icon-192.png'', ''/icon-512.png'']"

definition header_value :: "request \<Rightarrow> string \<Rightarrow> string option" where
  "header_value rq f = map_of (headers rq) f"

text \<open>
  Whether the query \<open>q\<close> matches a stored pair, as the host decides it with the default
  options: both are GET requests, the URLs agree up to the fragment, and for every
  field value of the stored response's \<^verbatim>\<open>Vary\<close> header the field is not \<open>*\<close> and the
  stored request and the query carry the same value for it.
\<close>

definition request_matches :: "request \<Rightarrow> request \<times> response \<Rightarrow> bool" where
  "request_matches q item =
     (case item of
        (rq, rs) \<Rightarrow>
          method_name q = ''GET'' \<and> method_name rq = ''GET''
          \<and> scheme q = scheme rq \<and> url q = url rq
          \<and> list_all (\<lambda>f. f \<noteq> ''*'' \<and> header_value rq f = header_value q f) (vary rs))"

text \<open>\<^verbatim>\<open>cache.match(q)\<close>: the response of the first stored pair that \<open>q\<close> matches.\<close>

definition cache_match :: "cache \<Rightarrow> request \<Rightarrow> response option" where
  "cache_match c q = map_option snd (find (request_matches q) c)"

text \<open>
  What \<^verbatim>\<open>cache.put(rq, rs)\<close> checks before it writes: the request is a GET request
  over http or https, the response is not a partial one (206) and its \<^verbatim>\<open>Vary\<close>
  header has no \<open>*\<close>. Otherwise its promise is rejected and nothing is written.
\<close>

definition http_scheme :: "string \<Rightarrow> bool" where
  "http_scheme s = (s = ''http'' \<or> s = ''https'')"

definition put_accepts :: "request \<Rightarrow> response \<Rightarrow> bool" where
  "put_accepts rq rs =
     (http_scheme (scheme rq) \<and> method_name rq = ''GET''
      \<and> status rs \<noteq> 206 \<and> ''*'' \<notin> set (vary rs))"

text \<open>
  The write itself: the stored pairs that the request matches are removed and the new
  pair is appended.
\<close>

definition store :: "request \<Rightarrow> response \<Rightarrow> cache \<Rightarrow> cache" where
  "store rq rs c = filter (\<lambda>item. \<not> request_matches rq item) c @ [(rq, rs)]"

definition caches_keys :: "cache_storage \<Rightarrow> string list" where
  "caches_keys cs = map fst cs"

text \<open>\<^verbatim>\<open>caches.open(n)\<close>: the bucket named \<open>n\<close>, created empty when absent.\<close>

definition caches_open :: "string \<Rightarrow> cache_storage \<Rightarrow> cache_storage" where
  "caches_open n cs = (if n \<in> set (caches_keys cs) then cs else cs @ [(n, [])])"

definition store_in :: "string \<Rightarrow> request \<Rightarrow> response \<Rightarrow> cache_storage \<Rightarrow> cache_storage" where
  "store_in n rq rs cs = map (\<lambda>(m, c). if m = n then (m, store rq rs c) else (m, c)) cs"

text \<open>
  \<^verbatim>\<open>cache.put(rq, rs)\<close> on the handle of the bucket named \<open>n\<close>. Besides the checks of
  \<open>put_accepts\<close> the host may fail to take a write (its quota is exceeded, say):
  \<open>wfail rq rs\<close> says that it fails this one. A rejected put leaves the storage as it
  was.
\<close>

definition put_in ::
  "(request \<Rightarrow> response \<Rightarrow> bool) \<Rightarrow> string \<Rightarrow> request \<Rightarrow> response \<Rightarrow> cache_storage
     \<Rightarrow> unit promise \<times> cache_storage" where
  "put_in wfail n rq rs cs =
     (if put_accepts rq rs \<and> \<not> wfail rq rs then (Resolved (), store_in n rq rs cs)
      else (Rejected, cs))"

text \<open>
  \<^verbatim>\<open>caches.match(q)\<close>: the match of the first bucket, in creation order, that has
  one; \<open>None\<close> is JavaScript's \<^verbatim>\<open>undefined\<close>.
\<close>

fun caches_match :: "cache_storage \<Rightarrow> request \<Rightarrow> response option" where
  "caches_match [] q = None"
| "caches_match ((n, c) # cs) q =
     (case cache_match c q of Some r \<Rightarrow> Some r | None \<Rightarrow> caches_match cs q)"

text \<open>
  \<^verbatim>\<open>caches.delete(k)\<close> returns a promise. When it resolves the bucket is gone (the
  value says whether there was one); \<open>rej k\<close> says that the host rejects the deletion of
  \<open>k\<close>, which leaves the storage as it was.
\<close>

definition caches_delete ::
  "(string \<Rightarrow> bool) \<Rightarrow> string \<Rightarrow> cache_storage \<Rightarrow> bool promise \<times> cache_storage" where
  "caches_delete rej k cs =
     (if rej k then (Rejected, cs)
      else (Resolved (k \<in> set (caches_keys cs)), filter (\<lambda>(n, c). n \<noteq> k) cs))"

text \<open>What the bucket named \<open>n\<close> answers to the query \<open>q\<close>, if there is such a bucket.\<close>

definition entry :: "cache_storage \<Rightarrow> string \<Rightarrow> request \<Rightarrow> response option" where
  "entry cs n q = (case map_of cs n of None \<Rightarrow> None | Some c \<Rightarrow> cache_match c q)"

fun promise_all :: "'a promise list \<Rightarrow> 'a list promise" where
  "promise_all [] = Resolved []"
| "promise_all (p # ps) =
     (case p of
        Rejected \<Rightarrow> Rejected
      | Resolved v \<Rightarrow>
          (case promise_all ps of Rejected \<Rightarrow> Rejected | Resolved vs \<Rightarrow> Resolved (v # vs)))"

subsection \<open>The host's side of the lifecycle events\<close>

text \<open>
  The host waits for the promise given to \<^verbatim>\<open>waitUntil\<close> to settle. A rejected
  promise of the install event fails the installation and the worker is discarded. The
  promise of the activate event only holds activation back until it has settled: the
  worker is activated whether the promise was fulfilled or rejected.
\<close>

datatype worker_state = Installed | Activated | Redundant

definition after_install :: "'a promise \<Rightarrow> worker_state" where
  "after_install p = (case p of Resolved v \<Rightarrow> Installed | Rejected \<Rightarrow> Redundant)"

definition after_activate :: "'a promise \<Rightarrow> worker_state" where
  "after_activate p = (case p of Resolved v \<Rightarrow> Activated | Rejected \<Rightarrow> Activated)"

subsection \<open>The install listener\<close>

text \<open>
  \<^verbatim>\<open>cache.addAll(urls)\<close> builds a request for every URL and fetches it. A response
  can be added when the fetch resolved with an ok status (200 to 299) that is not 206 and
  the pair passes the checks of \<^verbatim>\<open>cache.put\<close>. The writes form one batch, which
  fails when a request matches a pair added earlier in the same batch or when the host
  does not take a write. When every response can be added and the batch does not fail,
  the pairs are written in order; otherwise the promise is rejected and nothing is
  written.
\<close>

definition ok_status :: "response \<Rightarrow> bool" where
  "ok_status r = (200 \<le> status r \<and> status r \<le> 299)"

definition addable :: "request \<Rightarrow> response promise \<Rightarrow> bool" where
  "addable rq p =
     (case p of Rejected \<Rightarrow> False | Resolved r \<Rightarrow> ok_status r \<and> put_accepts rq r)"

fun fetch_all :: "network \<Rightarrow> string list \<Rightarrow> (request \<times> response) list promise" where
  "fetch_all fetch [] = Resolved []"
| "fetch_all fetch (u # us) =
     (case fetch (same_origin u) of
        Rejected \<Rightarrow> Rejected
      | Resolved r \<Rightarrow>
          (if addable (same_origin u) (Resolved r) then
             (case fetch_all fetch us of
                Rejected \<Rightarrow> Rejected
              | Resolved es \<Rightarrow> Resolved ((same_origin u, r) # es))
           else Rejected))"

fun put_all :: "string \<Rightarrow> (request \<times> response) list \<Rightarrow> cache_storage \<Rightarrow> cache_storage" where
  "put_all n [] cs = cs"
| "put_all n ((rq, rs) # es) cs = put_all n es (store_in n rq rs cs)"

fun batch_clash :: "(request \<times> response) list \<Rightarrow> (request \<times> response) list \<Rightarrow> bool" where
  "batch_clash added [] = False"
| "batch_clash added ((rq, rs) # es) =
     ((\<exists>item \<in> set added. request_matches rq item) \<or> batch_clash (added @ [(rq, rs)]) es)"

definition cache_addAll ::
  "network \<Rightarrow> (request \<Rightarrow> response \<Rightarrow> bool) \<Rightarrow> string \<Rightarrow> string list \<Rightarrow> cache_storage
     \<Rightarrow> unit promise \<times> cache_storage" where
  "cache_addAll fetch wfail n urls cs =
     (case fetch_all fetch urls of
        Rejected \<Rightarrow> (Rejected, cs)
      | Resolved es \<Rightarrow>
          (if batch_clash [] es \<or> (\<exists>(rq, rs) \<in> set es. wfail rq rs) then (Rejected, cs)
           else (Resolved (), put_all n es cs)))"

text \<open>
  \<^verbatim>\<open>event.waitUntil(caches.open(CACHE_NAME).then((cache) => cache.addAll(CORE_ASSETS)))\<close>:
  the promise handed to \<^verbatim>\<open>waitUntil\<close>, and the storage once it has settled. The call
  \<^verbatim>\<open>self.skipWaiting()\<close> that follows touches neither.
\<close>

definition on_install ::
  "network \<Rightarrow> (request \<Rightarrow> response \<Rightarrow> bool) \<Rightarrow> cache_storage \<Rightarrow> unit promise \<times> cache_storage" where
  "on_install fetch wfail cs =
     cache_addAll fetch wfail CACHE_NAME CORE_ASSETS (caches_open CACHE_NAME cs)"

subsection \<open>The activate listener\<close>

text \<open>
  The callback of \<^verbatim>\<open>keys.map\<close>: \<^verbatim>\<open>k !== CACHE_NAME ? caches.delete(k) : null\<close>.
  \<^verbatim>\<open>Promise.all\<close> takes the \<^verbatim>\<open>null\<close> (here \<open>None\<close>) as a resolved value.
\<close>

definition delete_unless_current ::
  "(string \<Rightarrow> bool) \<Rightarrow> string \<Rightarrow> cache_storage \<Rightarrow> bool option promise \<times> cache_storage" where
  "delete_unless_current rej k cs =
     (if k \<noteq> CACHE_NAME then
        (case caches_delete rej k cs of
           (Resolved b, cs') \<Rightarrow> (Resolved (Some b), cs')
         | (Rejected, cs') \<Rightarrow> (Rejected, cs'))
      else (Resolved None, cs))"

text \<open>
  \<^verbatim>\<open>keys.map\<close> calls the callback on every key, so every deletion is issued whatever
  becomes of the others; the storage is threaded through them.
\<close>

fun map_keys ::
  "(string \<Rightarrow> bool) \<Rightarrow> string list \<Rightarrow> cache_storage \<Rightarrow> bool option promise list \<times> cache_storage" where
  "map_keys rej [] cs = ([], cs)"
| "map_keys rej (k # ks) cs =
     (case delete_unless_current rej k cs of
        (p, cs1) \<Rightarrow> (case map_keys rej ks cs1 of (ps, cs2) \<Rightarrow> (p # ps, cs2)))"

text \<open>
  \<^verbatim>\<open>event.waitUntil(caches.keys().then((keys) => Promise.all(keys.map(...))))\<close>: the
  promise handed to \<^verbatim>\<open>waitUntil\<close>, and the storage once every deletion has settled.
  The call \<^verbatim>\<open>self.clients.claim()\<close> that follows touches neither.
\<close>

definition on_activate ::
  "(string \<Rightarrow> bool) \<Rightarrow> cache_storage \<Rightarrow> bool option list promise \<times> cache_storage" where
  "on_activate rej cs =
     (case map_keys rej (caches_keys cs) cs of (ps, cs') \<Rightarrow> (promise_all ps, cs'))"

subsection \<open>The fetch listener\<close>

text \<open>
  What the listener does with the event: it returns without calling
  \<^verbatim>\<open>respondWith\<close>, or it responds with a promise that resolves with a response or
  with \<^verbatim>\<open>undefined\<close> (\<open>None\<close>).
\<close>

datatype reply = NotIntercepted | RespondWith "response option"

text \<open>
  A write the listener starts and does not wait for:
  \<^verbatim>\<open>caches.open(n).then((cache) => cache.put(request, copy))\<close>.
\<close>

datatype task = OpenAndPut string request response

definition clone :: "response \<Rightarrow> response" where
  "clone res = res"

definition on_fetch :: "network \<Rightarrow> cache_storage \<Rightarrow> request \<Rightarrow> reply \<times> task list" where
  "on_fetch fetch cs req =
     (if method_name req \<noteq> ''GET'' then (NotIntercepted, [])
      else
        (case fetch req of
           Resolved res \<Rightarrow>
             (let copy = clone res
              in (RespondWith (Some res), [OpenAndPut CACHE_NAME req copy]))
         | Rejected \<Rightarrow>
             (RespondWith
                (case caches_match cs req of
                   Some cached \<Rightarrow> Some cached
                 | None \<Rightarrow> caches_match cs (same_origin ''/'')),
              [])))"

text \<open>
  A pending write runs to its end on its own: the bucket is opened (and created when
  absent), then the put is tried; nothing waits for its promise or catches a rejection.
\<close>

fun run_task :: "(request \<Rightarrow> response \<Rightarrow> bool) \<Rightarrow> task \<Rightarrow> cache_storage \<Rightarrow> cache_storage" where
  "run_task wfail (OpenAndPut n rq rs) cs = snd (put_in wfail n rq rs (caches_open n cs))"

text \<open>The storage once the pending writes have settled.\<close>

definition settle :: "(request \<Rightarrow> response \<Rightarrow> bool) \<Rightarrow> task list \<Rightarrow> cache_storage \<Rightarrow> cache_storage" where
  "settle wfail ts cs = fold (run_task wfail) ts cs"

text \<open>
  The host's side of a fetch event: a request the listener did not respond to goes to the
  network as if no worker controlled the page; a response goes to the page; a
  \<^verbatim>\<open>respondWith\<close> that resolves with \<^verbatim>\<open>undefined\<close> is a failed request.
\<close>

definition delivered :: "network \<Rightarrow> request \<Rightarrow> reply \<Rightarrow> response promise" where
  "delivered fetch req rp =
     (case rp of
        NotIntercepted \<Rightarrow> fetch req
      | RespondWith None \<Rightarrow> Rejected
      | RespondWith (Some r) \<Rightarrow> Resolved r)"

text \<open>
  Whether a bucket created before the bucket named \<open>n\<close> (every bucket, when there is no
  such bucket yet) has a match for the query \<open>q\<close>.
\<close>

fun earlier_hit :: "string \<Rightarrow> request \<Rightarrow> cache_storage \<Rightarrow> bool" where
  "earlier_hit n q [] = False"
| "earlier_hit n q ((m, c) # cs) =
     (if m = n then False else (cache_match c q \<noteq> None \<or> earlier_hit n q cs))"

text \<open>
  What it means for the storage to hold an entry: some bucket answers the query \<open>q\<close>
  with \<open>r\<close>; some bucket has a match for \<open>q\<close>.
\<close>

definition is_cached :: "cache_storage \<Rightarrow> request \<Rightarrow> response \<Rightarrow> bool" where
  "is_cached cs q r = (\<exists>(n, c) \<in> set cs. cache_match c q = Some r)"

definition has_entry :: "cache_storage \<Rightarrow> request \<Rightarrow> bool" where
  "has_entry cs q = (\<exists>(n, c) \<in> set cs. cache_match c q \<noteq> None)"

subsection \<open>Environments used in the examples\<close>

text \<open>
  A network that is down, and one that answers every request with the same response; a
  host that rejects no deletion, and one that rejects every deletion; a host that takes
  every write; a network on which one core asset is answered with 404.
\<close>

definition offline :: network where
  "offline req = Rejected"

definition serving :: "response \<Rightarrow> network" where
  "serving r req = Resolved r"

definition deletions_succeed :: "string \<Rightarrow> bool" where
  "deletions_succeed k = False"

definition deletions_fail :: "string \<Rightarrow> bool" where
  "deletions_fail k = True"

definition writes_taken :: "request \<Rightarrow> response \<Rightarrow> bool" where
  "writes_taken rq rs = False"

definition icon_not_found :: network where
  "icon_not_found req =
     (if url req = ''/icon-512.png'' then Resolved \<lparr>status = 404, vary = [], body = ''not found''\<rparr>
      else Resolved \<lparr>status = 200, vary = [], body = ''asset''\<rparr>)"

text \<open>A page's request for the root document, and one for a report, with a header each.\<close>

definition root_request :: request where
  "root_request =
     \<lparr>method_name = ''GET'', scheme = ''https'', url = ''/'', fragment = [],
      headers = [(''accept'', ''text/html'')]\<rparr>"

definition report_request :: request where
  "report_request =
     \<lparr>method_name = ''GET'', scheme = ''https'', url = ''/report'', fragment = [],
      headers = [(''accept'', ''text/html'')]\<rparr>"

definition old_page :: response where
  "old_page = \<lparr>status = 200, vary = [], body = ''old''\<rparr>"

definition new_page :: response where
  "new_page = \<lparr>status = 200, vary = [], body = ''new''\<rparr>"

text \<open>
  A partial response, a response that varies in every header, and one that varies in the
  \<open>accept\<close> header.
\<close>

definition partial_page :: response where
  "partial_page = \<lparr>status = 206, vary = [], body = ''part''\<rparr>"

definition varying_page :: response where
  "varying_page = \<lparr>status = 200, vary = [''*''], body = ''any''\<rparr>"

definition negotiated_page :: response where
  "negotiated_page = \<lparr>status = 200, vary = [''accept''], body = ''html''\<rparr>"

text \<open>A storage in which the bucket of an earlier version, created first, is still present.\<close>

definition with_stale_bucket :: cache_storage where
  "with_stale_bucket =
     [(''kr-close-report-v0'', [(same_origin ''/'', old_page)]), (CACHE_NAME, [])]"

subsection \<open>Facts about the storage operations\<close>

lemma find_after_removal:
  "find P (filter (\<lambda>y. \<not> P y) xs @ [x]) = (if P x then Some x else None)"
  by (induction xs) auto

lemma find_removal_elsewhere:
  assumes "\<And>y. P y \<Longrightarrow> Q y" and "\<not> P x"
  shows "find P (filter Q xs @ [x]) = find P xs"
  using assms by (induction xs) auto

lemma request_matches_refl: "put_accepts rq rs \<Longrightarrow> request_matches rq (rq, rs)"
  by (auto simp: put_accepts_def request_matches_def list_all_iff)

lemma request_matches_url: "request_matches q (rq, rs) \<Longrightarrow> url q = url rq"
  by (simp add: request_matches_def)

lemma cache_match_store_same:
  "put_accepts rq rs \<Longrightarrow> cache_match (store rq rs c) rq = Some rs"
  by (simp add: cache_match_def store_def find_after_removal request_matches_refl)

lemma cache_match_store_other:
  assumes "url q \<noteq> url rq"
  shows "cache_match (store rq rs c) q = cache_match c q"
proof -
  have keep: "\<not> request_matches rq item" if "request_matches q item" for item
    using that assms by (cases item) (auto simp: request_matches_def)
  have new: "\<not> request_matches q (rq, rs)"
    using assms by (auto dest: request_matches_url)
  show ?thesis
    unfolding cache_match_def store_def
    by (simp only: find_removal_elsewhere [of "request_matches q", OF keep new])
qed

lemma caches_keys_store_in: "caches_keys (store_in n rq rs cs) = caches_keys cs"
  by (induction cs) (auto simp: store_in_def caches_keys_def)

lemma map_of_store_in:
  "map_of (store_in n rq rs cs) m =
     (if m = n then map_option (store rq rs) (map_of cs n) else map_of cs m)"
  by (induction cs) (auto simp: store_in_def)

lemma map_of_key:
  assumes "n \<in> set (caches_keys cs)"
  shows "\<exists>c. map_of cs n = Some c"
proof -
  from assms have "map_of cs n \<noteq> None"
    by (simp add: map_of_eq_None_iff caches_keys_def)
  then show ?thesis
    by blast
qed

lemma entry_store_in_same:
  assumes "n \<in> set (caches_keys cs)" and "put_accepts rq rs"
  shows "entry (store_in n rq rs cs) n rq = Some rs"
proof -
  from map_of_key [OF assms(1)] obtain c where "map_of cs n = Some c"
    by blast
  then show ?thesis
    by (simp add: entry_def map_of_store_in cache_match_store_same [OF assms(2)])
qed

lemma entry_store_in_other:
  assumes "url q \<noteq> url rq"
  shows "entry (store_in n rq rs cs) n q = entry cs n q"
  by (cases "map_of cs n") (simp_all add: entry_def map_of_store_in cache_match_store_other [OF assms])

lemma caches_open_has: "n \<in> set (caches_keys (caches_open n cs))"
  by (simp add: caches_open_def caches_keys_def)

lemma caches_keys_put_all: "caches_keys (put_all n es cs) = caches_keys cs"
  by (induction n es cs rule: put_all.induct) (simp_all add: caches_keys_store_in)

lemma entry_put_all_other:
  "\<forall>(rq, rs) \<in> set es. url rq \<noteq> url q \<Longrightarrow> entry (put_all n es cs) n q = entry cs n q"
proof (induction n es cs rule: put_all.induct)
  case (1 n cs)
  then show ?case by simp
next
  case (2 n rq rs es cs)
  then have "url q \<noteq> url rq"
    by auto
  with 2 show ?case
    by (simp add: entry_store_in_other)
qed

lemma entry_put_all_member:
  assumes "n \<in> set (caches_keys cs)" and "distinct (map (url \<circ> fst) es)"
    and "\<forall>(rq, rs) \<in> set es. put_accepts rq rs" and "(rq, rs) \<in> set es"
  shows "entry (put_all n es cs) n rq = Some rs"
  using assms
proof (induction es arbitrary: cs)
  case Nil
  then show ?case by simp
next
  case (Cons e es)
  obtain rq' rs' where e: "e = (rq', rs')"
    by (cases e)
  have keys: "n \<in> set (caches_keys (store_in n rq' rs' cs))"
    by (simp add: caches_keys_store_in Cons.prems(1))
  show ?case
  proof (cases "(rq, rs) = e")
    case True
    then have same: "rq' = rq" "rs' = rs"
      using e by simp_all
    from Cons.prems(2) have "\<forall>(rq2, rs2) \<in> set es. url rq2 \<noteq> url rq"
      unfolding e same by force
    then have "entry (put_all n es (store_in n rq rs cs)) n rq = entry (store_in n rq rs cs) n rq"
      by (rule entry_put_all_other)
    also have "\<dots> = Some rs"
      using Cons.prems(1,3) by (intro entry_store_in_same) (auto simp: e same)
    finally show ?thesis
      by (simp add: e same)
  next
    case False
    with Cons.prems(4) have "(rq, rs) \<in> set es"
      by simp
    with Cons.IH [OF keys] Cons.prems(2,3) show ?thesis
      by (simp add: e)
  qed
qed

lemma fst_in_keys: "(n, c) \<in> set cs \<Longrightarrow> n \<in> set (caches_keys cs)"
  by (force simp: caches_keys_def)

text \<open>
  \<open>caches_match\<close> finds an entry exactly when some bucket has a match for the query, and
  what it finds is the answer of a bucket.
\<close>

lemma caches_match_None_iff: "caches_match cs q = None \<longleftrightarrow> \<not> has_entry cs q"
  by (induction cs) (auto simp: has_entry_def split: option.splits)

lemma caches_match_is_cached: "caches_match cs q = Some r \<Longrightarrow> is_cached cs q r"
  by (induction cs) (auto simp: is_cached_def split: option.splits)

text \<open>
  An accepted write into the bucket named \<open>n\<close> is what \<open>caches_match\<close> finds afterwards
  for the same request, unless a bucket created earlier has a match for it.
\<close>

lemma caches_match_store_in_present:
  "n \<in> set (caches_keys cs) \<Longrightarrow> \<not> earlier_hit n rq cs \<Longrightarrow> put_accepts rq rs \<Longrightarrow>
   caches_match (store_in n rq rs cs) rq = Some rs"
  by (induction cs) (force simp: store_in_def caches_keys_def cache_match_store_same)+

lemma caches_match_store_in_created:
  "n \<notin> set (caches_keys cs) \<Longrightarrow> \<not> earlier_hit n rq cs \<Longrightarrow> put_accepts rq rs \<Longrightarrow>
   caches_match (store_in n rq rs (cs @ [(n, [])])) rq = Some rs"
  by (induction cs) (auto simp: store_in_def caches_keys_def cache_match_store_same)

lemma caches_match_store_open:
  "\<not> earlier_hit n rq cs \<Longrightarrow> put_accepts rq rs \<Longrightarrow>
   caches_match (store_in n rq rs (caches_open n cs)) rq = Some rs"
  by (simp add: caches_open_def caches_match_store_in_present caches_match_store_in_created)

text \<open>A single pending write, once settled.\<close>

lemma settle_accepted:
  "put_accepts rq rs \<Longrightarrow> \<not> wfail rq rs \<Longrightarrow>
   settle wfail [OpenAndPut n rq rs] cs = store_in n rq rs (caches_open n cs)"
  by (simp add: settle_def put_in_def)

lemma settle_refused:
  "\<not> put_accepts rq rs \<or> wfail rq rs \<Longrightarrow>
   settle wfail [OpenAndPut n rq rs] cs = caches_open n cs"
  by (auto simp: settle_def put_in_def)

lemma entry_settle_accepted:
  "put_accepts rq rs \<Longrightarrow> \<not> wfail rq rs \<Longrightarrow>
   entry (settle wfail [OpenAndPut n rq rs] cs) n rq = Some rs"
  by (simp add: settle_accepted entry_store_in_same caches_open_has)

text \<open>Two requests that differ in the fragment only are the same query.\<close>

lemma request_matches_same_key:
  assumes "method_name q' = method_name q" and "scheme q' = scheme q" and "url q' = url q"
    and "headers q' = headers q"
  shows "request_matches q' = request_matches q"
  using assms by (auto simp: request_matches_def header_value_def fun_eq_iff)

lemma caches_match_same_key:
  assumes "request_matches q' = request_matches q"
  shows "caches_match cs q' = caches_match cs q"
proof (induction cs)
  case Nil
  then show ?case by simp
next
  case (Cons b cs)
  then show ?case
    by (cases b) (simp add: cache_match_def assms split: option.splits)
qed

subsection \<open>Facts about the install listener\<close>

lemma fetch_all_Resolved:
  "fetch_all fetch us = Resolved es \<Longrightarrow>
   map fst es = map same_origin us
   \<and> (\<forall>(rq, rs) \<in> set es. fetch rq = Resolved rs \<and> put_accepts rq rs)"
  by (induction us arbitrary: es) (auto simp: addable_def split: promise.splits if_splits)

lemma fetch_all_Rejected:
  "u \<in> set us \<Longrightarrow> \<not> addable (same_origin u) (fetch (same_origin u)) \<Longrightarrow>
   fetch_all fetch us = Rejected"
  by (induction us) (auto simp: addable_def split: promise.splits)

lemma on_install_Resolved:
  "fst (on_install fetch wfail cs) = Resolved () \<Longrightarrow>
   \<exists>es. fetch_all fetch CORE_ASSETS = Resolved es
      \<and> snd (on_install fetch wfail cs) = put_all CACHE_NAME es (caches_open CACHE_NAME cs)"
  by (auto simp: on_install_def cache_addAll_def split: promise.splits if_splits)

lemma url_same_origin: "url (same_origin p) = p"
  by (simp add: same_origin_def)

lemma fetched_member:
  assumes "fetch_all fetch us = Resolved es" and "p \<in> set us"
  shows "\<exists>r. fetch (same_origin p) = Resolved r \<and> (same_origin p, r) \<in> set es"
proof -
  from fetch_all_Resolved [OF assms(1)] have fst_es: "map fst es = map same_origin us"
    and all_es: "\<forall>(rq, rs) \<in> set es. fetch rq = Resolved rs \<and> put_accepts rq rs"
    by blast+
  from assms(2) have "same_origin p \<in> set (map fst es)"
    by (simp add: fst_es)
  then obtain r where "(same_origin p, r) \<in> set es"
    by auto
  with all_es show ?thesis
    by blast
qed

lemma fetched_urls:
  assumes "fetch_all fetch us = Resolved es"
  shows "map (url \<circ> fst) es = us"
proof -
  have "map (url \<circ> fst) es = map url (map fst es)"
    by simp
  also have "\<dots> = map url (map same_origin us)"
    using fetch_all_Resolved [OF assms] by simp
  also have "\<dots> = us"
    by (simp add: url_same_origin comp_def)
  finally show ?thesis .
qed

subsection \<open>Facts about the activate listener\<close>

lemma snd_delete_unless_current:
  "snd (delete_unless_current rej k cs) =
     filter (\<lambda>(n, c). n \<noteq> k \<or> k = CACHE_NAME \<or> rej k) cs"
  by (simp add: delete_unless_current_def caches_delete_def split: prod.splits promise.splits)

lemma fst_delete_unless_current:
  "fst (delete_unless_current rej k cs) = Rejected \<longleftrightarrow> k \<noteq> CACHE_NAME \<and> rej k"
  by (simp add: delete_unless_current_def caches_delete_def split: prod.splits promise.splits)

lemma snd_map_keys_Cons:
  "snd (map_keys rej (k # ks) cs) = snd (map_keys rej ks (snd (delete_unless_current rej k cs)))"
  by (simp split: prod.splits)

lemma fst_map_keys_Cons:
  "fst (map_keys rej (k # ks) cs) =
     fst (delete_unless_current rej k cs) # fst (map_keys rej ks (snd (delete_unless_current rej k cs)))"
  by (simp split: prod.splits)

lemma snd_map_keys:
  "snd (map_keys rej ks cs) = filter (\<lambda>(n, c). n \<notin> set ks \<or> n = CACHE_NAME \<or> rej n) cs"
proof (induction ks arbitrary: cs)
  case Nil
  then show ?case by simp
next
  case (Cons k ks)
  have "snd (map_keys rej (k # ks) cs) =
      filter (\<lambda>(n, c). n \<notin> set ks \<or> n = CACHE_NAME \<or> rej n)
        (filter (\<lambda>(n, c). n \<noteq> k \<or> k = CACHE_NAME \<or> rej k) cs)"
    by (simp only: snd_map_keys_Cons Cons.IH snd_delete_unless_current)
  also have "\<dots> = filter (\<lambda>(n, c). n \<notin> set (k # ks) \<or> n = CACHE_NAME \<or> rej n) cs"
    by (auto intro: filter_cong)
  finally show ?case .
qed

lemma promise_all_Rejected: "promise_all ps = Rejected \<longleftrightarrow> Rejected \<in> set ps"
  by (induction ps) (auto split: promise.splits)

lemma fst_map_keys:
  "Rejected \<in> set (fst (map_keys rej ks cs)) \<longleftrightarrow> (\<exists>k \<in> set ks. k \<noteq> CACHE_NAME \<and> rej k)"
proof (induction ks arbitrary: cs)
  case Nil
  then show ?case by simp
next
  case (Cons k ks)
  show ?case
    unfolding fst_map_keys_Cons
    using fst_delete_unless_current [of rej k cs] Cons.IH [of "snd (delete_unless_current rej k cs)"]
    by auto
qed

lemma on_activate_storage:
  "snd (on_activate rej cs) = filter (\<lambda>(n, c). n = CACHE_NAME \<or> rej n) cs"
proof -
  have "snd (on_activate rej cs) = snd (map_keys rej (caches_keys cs) cs)"
    by (simp add: on_activate_def split: prod.splits)
  also have "\<dots> = filter (\<lambda>(n, c). n \<notin> set (caches_keys cs) \<or> n = CACHE_NAME \<or> rej n) cs"
    by (rule snd_map_keys)
  also have "\<dots> = filter (\<lambda>(n, c). n = CACHE_NAME \<or> rej n) cs"
    by (rule filter_cong) (auto dest: fst_in_keys)
  finally show ?thesis .
qed

lemma on_activate_promise:
  "fst (on_activate rej cs) = Rejected \<longleftrightarrow> (\<exists>k \<in> set (caches_keys cs). k \<noteq> CACHE_NAME \<and> rej k)"
proof -
  have "fst (on_activate rej cs) = promise_all (fst (map_keys rej (caches_keys cs) cs))"
    by (simp add: on_activate_def split: prod.splits)
  then show ?thesis
    by (simp only: promise_all_Rejected fst_map_keys)
qed

lemma length_filter_distinct_le1:
  "distinct (map fst cs) \<Longrightarrow> length (filter (\<lambda>(n, c). n = a) cs) \<le> Suc 0"
  by (induction cs) (auto simp: filter_empty_conv rev_image_eqI)

subsection \<open>The claims\<close>

text \<open>
  C1. For a GET request whose network fetch rejects, the listener responds with the
  first defined value of the chain: the cached entry for the request, otherwise the
  cached entry for the root path \<open>/\<close>, otherwise \<^verbatim>\<open>undefined\<close> (\<open>None\<close>). It
  starts no write.
\<close>

theorem fetch_failure_fallback_chain:
  assumes "method_name req = ''GET''" and "fetch req = Rejected"
  shows "on_fetch fetch cs req =
           (RespondWith
              (case caches_match cs req of
                 Some exact \<Rightarrow> Some exact
               | None \<Rightarrow>
                   (case caches_match cs (same_origin ''/'') of
                      Some root \<Rightarrow> Some root
                    | None \<Rightarrow> None)),
            [])
       \<and> (has_entry cs req \<longrightarrow>
            (\<exists>r. is_cached cs req r \<and> fst (on_fetch fetch cs req) = RespondWith (Some r)))
       \<and> (\<not> has_entry cs req \<and> has_entry cs (same_origin ''/'') \<longrightarrow>
            (\<exists>r. is_cached cs (same_origin ''/'') r
               \<and> fst (on_fetch fetch cs req) = RespondWith (Some r)))
       \<and> (\<not> has_entry cs req \<and> \<not> has_entry cs (same_origin ''/'') \<longrightarrow>
            fst (on_fetch fetch cs req) = RespondWith None)"
proof -
  have reply: "on_fetch fetch cs req =
      (RespondWith
         (case caches_match cs req of
            Some exact \<Rightarrow> Some exact
          | None \<Rightarrow> caches_match cs (same_origin ''/'')),
       [])"
    using assms by (simp add: on_fetch_def)
  have exact: "\<exists>r. is_cached cs req r \<and> fst (on_fetch fetch cs req) = RespondWith (Some r)"
    if "has_entry cs req"
  proof -
    from that obtain r where "caches_match cs req = Some r"
      using caches_match_None_iff by fastforce
    then show ?thesis
      using caches_match_is_cached by (fastforce simp: reply)
  qed
  have root: "\<exists>r. is_cached cs (same_origin ''/'') r
      \<and> fst (on_fetch fetch cs req) = RespondWith (Some r)"
    if "\<not> has_entry cs req" and "has_entry cs (same_origin ''/'')"
  proof -
    from that(1) have miss: "caches_match cs req = None"
      by (simp add: caches_match_None_iff)
    from that(2) obtain r where "caches_match cs (same_origin ''/'') = Some r"
      using caches_match_None_iff by fastforce
    then show ?thesis
      using caches_match_is_cached by (fastforce simp: reply miss)
  qed
  have none: "fst (on_fetch fetch cs req) = RespondWith None"
    if "\<not> has_entry cs req" and "\<not> has_entry cs (same_origin ''/'')"
  proof -
    from that have "caches_match cs req = None" and "caches_match cs (same_origin ''/'') = None"
      by (simp_all add: caches_match_None_iff)
    then show ?thesis
      by (simp add: reply)
  qed
  have "(case caches_match cs req of
            Some exact \<Rightarrow> Some exact
          | None \<Rightarrow> caches_match cs (same_origin ''/''))
      = (case caches_match cs req of
           Some exact \<Rightarrow> Some exact
         | None \<Rightarrow>
             (case caches_match cs (same_origin ''/'') of
                Some root \<Rightarrow> Some root
              | None \<Rightarrow> None))"
    by (simp split: option.splits)
  with reply exact root none show ?thesis
    by simp
qed

theorem fetch_failure_fallback_chain_witness:
  "on_fetch offline [(CACHE_NAME, [(same_origin ''/'', old_page)])] report_request
   = (RespondWith (Some old_page), [])"
proof -
  have g: "method_name report_request = ''GET''"
    by (simp add: report_request_def)
  have r: "offline report_request = Rejected"
    by (simp add: offline_def)
  have miss: "caches_match [(CACHE_NAME, [(same_origin ''/'', old_page)])] report_request = None"
    by (simp add: cache_match_def request_matches_def same_origin_def report_request_def)
  have hit: "caches_match [(CACHE_NAME, [(same_origin ''/'', old_page)])] (same_origin ''/'')
      = Some old_page"
    by (simp add: cache_match_def request_matches_def same_origin_def old_page_def)
  show ?thesis
    using fetch_failure_fallback_chain
      [where req = report_request and fetch = offline
         and cs = "[(CACHE_NAME, [(same_origin ''/'', old_page)])]", OF g r]
    by (simp add: miss hit del: caches_match.simps)
qed

text \<open>
  C2, as amended. For a GET request whose network fetch resolves, the listener responds
  with the network's response itself and leaves one pending write, of a clone equal to
  that response, into the current bucket under the request: the reply is there while the
  write is still pending. Once the write has settled the bucket holds the entry when
  the host's put takes it (an http or https request, a response that is not 206 and has
  no \<open>*\<close> in \<^verbatim>\<open>Vary\<close>, a write that does not fail). A put that is rejected stores
  nothing, and nothing is done about it: the storage is what opening the bucket left.
\<close>

theorem fetch_success_returns_and_stores:
  assumes "method_name req = ''GET''" and "fetch req = Resolved res"
  shows "on_fetch fetch cs req = (RespondWith (Some res), [OpenAndPut CACHE_NAME req res])
       \<and> (put_accepts req res \<and> \<not> wfail req res \<longrightarrow>
            entry (settle wfail (snd (on_fetch fetch cs req)) cs) CACHE_NAME req = Some res)
       \<and> (\<not> put_accepts req res \<or> wfail req res \<longrightarrow>
            settle wfail (snd (on_fetch fetch cs req)) cs = caches_open CACHE_NAME cs)"
proof -
  have reply: "on_fetch fetch cs req = (RespondWith (Some res), [OpenAndPut CACHE_NAME req res])"
    using assms by (simp add: on_fetch_def clone_def)
  then have tasks: "snd (on_fetch fetch cs req) = [OpenAndPut CACHE_NAME req res]"
    by simp
  show ?thesis
    unfolding tasks using reply
    by (simp add: entry_settle_accepted settle_refused)
qed

theorem fetch_success_returns_and_stores_witness:
  "on_fetch (serving new_page) [] report_request
     = (RespondWith (Some new_page), [OpenAndPut CACHE_NAME report_request new_page])
   \<and> put_accepts report_request new_page
   \<and> entry (settle writes_taken [OpenAndPut CACHE_NAME report_request new_page] [])
       CACHE_NAME report_request = Some new_page"
proof -
  have g: "method_name report_request = ''GET''"
    by (simp add: report_request_def)
  have r: "serving new_page report_request = Resolved new_page"
    by (simp add: serving_def)
  have a: "put_accepts report_request new_page"
    by (simp add: put_accepts_def http_scheme_def report_request_def new_page_def)
  have w: "\<not> writes_taken report_request new_page"
    by (simp add: writes_taken_def)
  show ?thesis
    using fetch_success_returns_and_stores
      [where req = report_request and fetch = "serving new_page" and cs = "[]"
         and wfail = writes_taken, OF g r] a w
    by auto
qed

text \<open>
  C2, as stated, fails: a partial response (status 206) to a GET request is returned to
  the caller, but the host's put rejects it and the current bucket holds no entry for
  the request once the write has settled.
\<close>

theorem fetch_success_partial_not_stored:
  "on_fetch (serving partial_page) [] report_request
     = (RespondWith (Some partial_page), [OpenAndPut CACHE_NAME report_request partial_page])
   \<and> settle writes_taken (snd (on_fetch (serving partial_page) [] report_request)) []
     = [(CACHE_NAME, [])]
   \<and> entry (settle writes_taken (snd (on_fetch (serving partial_page) [] report_request)) [])
       CACHE_NAME report_request = None"
  by (simp add: on_fetch_def serving_def clone_def settle_def put_in_def put_accepts_def
      partial_page_def report_request_def caches_open_def caches_keys_def entry_def
      cache_match_def)

text \<open>
  C3, as amended. When the promise the activate listener waits on is fulfilled (no
  deletion of a stale bucket was rejected), the storage keeps exactly the buckets named
  by the current version string: no bucket of another name exists, and with the
  storage's names distinct at most one bucket remains.
\<close>

theorem activate_leaves_only_current:
  assumes "fst (on_activate rej cs) \<noteq> Rejected"
  shows "snd (on_activate rej cs) = filter (\<lambda>(n, c). n = CACHE_NAME) cs
       \<and> (\<forall>n \<in> set (caches_keys (snd (on_activate rej cs))). n = CACHE_NAME)
       \<and> (distinct (caches_keys cs) \<longrightarrow> length (snd (on_activate rej cs)) \<le> 1)"
proof -
  from assms have ok: "\<forall>k \<in> set (caches_keys cs). k \<noteq> CACHE_NAME \<longrightarrow> \<not> rej k"
    using on_activate_promise by blast
  have "filter (\<lambda>(n, c). n = CACHE_NAME \<or> rej n) cs = filter (\<lambda>(n, c). n = CACHE_NAME) cs"
    by (rule filter_cong) (use ok in \<open>auto dest: fst_in_keys\<close>)
  then have st: "snd (on_activate rej cs) = filter (\<lambda>(n, c). n = CACHE_NAME) cs"
    by (simp add: on_activate_storage)
  moreover have "\<forall>n \<in> set (caches_keys (snd (on_activate rej cs))). n = CACHE_NAME"
    by (auto simp: st caches_keys_def)
  moreover have "distinct (caches_keys cs) \<longrightarrow> length (snd (on_activate rej cs)) \<le> 1"
    by (simp add: st caches_keys_def length_filter_distinct_le1)
  ultimately show ?thesis
    by blast
qed

theorem activate_leaves_only_current_witness:
  "fst (on_activate deletions_succeed with_stale_bucket) \<noteq> Rejected
   \<and> distinct (caches_keys with_stale_bucket)
   \<and> snd (on_activate deletions_succeed with_stale_bucket) = [(CACHE_NAME, [])]"
proof -
  have ok: "fst (on_activate deletions_succeed with_stale_bucket) \<noteq> Rejected"
    by (simp add: on_activate_def with_stale_bucket_def caches_keys_def delete_unless_current_def
        caches_delete_def deletions_succeed_def CACHE_NAME_def)
  show ?thesis
    using activate_leaves_only_current [OF ok] ok
    by (simp add: with_stale_bucket_def caches_keys_def CACHE_NAME_def)
qed

text \<open>
  C3, as stated, fails: when the host rejects the deletion of the stale bucket
  \<open>kr-close-report-v0\<close>, the listener has run to its end and the bucket is still
  there.
\<close>

theorem activate_failed_deletion_keeps_stale:
  "on_activate deletions_fail with_stale_bucket = (Rejected, with_stale_bucket)
   \<and> ''kr-close-report-v0'' \<in> set (caches_keys (snd (on_activate deletions_fail with_stale_bucket)))
   \<and> ''kr-close-report-v0'' \<noteq> CACHE_NAME"
  by (simp add: on_activate_def with_stale_bucket_def caches_keys_def delete_unless_current_def
      caches_delete_def deletions_fail_def CACHE_NAME_def)


text \<open>
  C4. When the promise of the install listener is fulfilled, the bucket named by the
  current version string exists and holds, for every path of the core asset list, the
  response the network gave for it.
\<close>

theorem install_populates_core_assets:
  assumes "fst (on_install fetch wfail cs) = Resolved ()"
  shows "CACHE_NAME \<in> set (caches_keys (snd (on_install fetch wfail cs)))
       \<and> (\<forall>p \<in> set CORE_ASSETS.
            \<exists>r. fetch (same_origin p) = Resolved r
               \<and> entry (snd (on_install fetch wfail cs)) CACHE_NAME (same_origin p) = Some r)"
proof -
  from assms obtain es where es: "fetch_all fetch CORE_ASSETS = Resolved es"
    and st: "snd (on_install fetch wfail cs) = put_all CACHE_NAME es (caches_open CACHE_NAME cs)"
    using on_install_Resolved by blast
  have opened: "CACHE_NAME \<in> set (caches_keys (caches_open CACHE_NAME cs))"
    by (rule caches_open_has)
  have dist: "distinct (map (url \<circ> fst) es)"
    by (simp only: fetched_urls [OF es]) (simp add: CORE_ASSETS_def)
  have acc: "\<forall>(rq, rs) \<in> set es. put_accepts rq rs"
    using fetch_all_Resolved [OF es] by blast
  have "CACHE_NAME \<in> set (caches_keys (snd (on_install fetch wfail cs)))"
    by (simp add: st caches_keys_put_all opened)
  moreover have "\<exists>r. fetch (same_origin p) = Resolved r
      \<and> entry (snd (on_install fetch wfail cs)) CACHE_NAME (same_origin p) = Some r"
    if "p \<in> set CORE_ASSETS" for p
  proof -
    from fetched_member [OF es that] obtain r
      where "fetch (same_origin p) = Resolved r" and "(same_origin p, r) \<in> set es"
      by blast
    then show ?thesis
      by (simp add: st entry_put_all_member [OF opened dist acc])
  qed
  ultimately show ?thesis
    by blast
qed

theorem install_populates_core_assets_witness:
  "fst (on_install (serving new_page) writes_taken []) = Resolved ()
   \<and> entry (snd (on_install (serving new_page) writes_taken [])) CACHE_NAME
       (same_origin ''/manifest.webmanifest'') = Some new_page"
proof -
  have ok: "fst (on_install (serving new_page) writes_taken []) = Resolved ()"
    by (simp add: on_install_def cache_addAll_def CORE_ASSETS_def serving_def addable_def
        ok_status_def put_accepts_def http_scheme_def same_origin_def new_page_def
        writes_taken_def request_matches_def)
  have mem: "''/manifest.webmanifest'' \<in> set CORE_ASSETS"
    by (simp add: CORE_ASSETS_def)
  show ?thesis
    using install_populates_core_assets [OF ok] ok mem
    by (auto simp: serving_def)
qed

text \<open>
  C5. A request whose method is not GET is not intercepted: the listener returns without
  responding and starts no write, the storage stays as it was, and the page receives
  what the network gives for the request.
\<close>

theorem non_get_not_intercepted:
  assumes "method_name req \<noteq> ''GET''"
  shows "on_fetch fetch cs req = (NotIntercepted, [])
       \<and> delivered fetch req (fst (on_fetch fetch cs req)) = fetch req
       \<and> settle wfail (snd (on_fetch fetch cs req)) cs = cs"
  using assms by (simp add: on_fetch_def delivered_def settle_def)

theorem non_get_not_intercepted_witness:
  "on_fetch offline [] (report_request\<lparr>method_name := ''POST''\<rparr>) = (NotIntercepted, [])
   \<and> delivered offline (report_request\<lparr>method_name := ''POST''\<rparr>) NotIntercepted = Rejected"
proof -
  have m: "method_name (report_request\<lparr>method_name := ''POST''\<rparr>) \<noteq> ''GET''"
    by simp
  show ?thesis
    using non_get_not_intercepted
      [where req = "report_request\<lparr>method_name := ''POST''\<rparr>" and fetch = offline
         and cs = "[]", OF m]
    by (simp add: offline_def delivered_def)
qed

text \<open>
  C6, as amended. The core asset list is the fixed list of five distinct absolute
  paths: the root document \<open>/\<close>, \<open>/index.html\<close>, the web-app manifest and the two
  icons (192 and 512); the current version bucket name is \<open>kr-close-report-v1\<close>.
\<close>

theorem core_assets_and_cache_name:
  "CORE_ASSETS =
     [''/'', ''/index.html'', ''/manifest.webmanifest'', ''/icon-192.png'', ''/icon-512.png'']
   \<and> length CORE_ASSETS = 5 \<and> distinct CORE_ASSETS
   \<and> CACHE_NAME = ''kr-close-report-v1''"
  by (simp add: CORE_ASSETS_def CACHE_NAME_def)

text \<open>
  C6, as stated, fails: the list does not consist of four paths only (root document,
  manifest, two icons), since \<open>/index.html\<close> is a fifth member.
\<close>

theorem core_assets_not_four:
  "length CORE_ASSETS \<noteq> 4
   \<and> ''/index.html'' \<in> set CORE_ASSETS
   \<and> ''/index.html'' \<notin> {''/'', ''/manifest.webmanifest'', ''/icon-192.png'', ''/icon-512.png''}"
  by (simp add: CORE_ASSETS_def)

text \<open>
  C7. The deletions of the activate listener are independent and best-effort. Whatever
  deletions the host rejects, a bucket is left exactly when it is the current one or
  its own deletion was rejected: every other stale bucket is removed, a bucket whose
  deletion failed stays as it was, and nothing is done about it. The promise the
  listener waits on is rejected exactly when some stale bucket's deletion was rejected,
  and the host activates the worker all the same.
\<close>

theorem activate_deletions_independent:
  "snd (on_activate rej cs) = filter (\<lambda>(n, c). n = CACHE_NAME \<or> rej n) cs
   \<and> (fst (on_activate rej cs) = Rejected
        \<longleftrightarrow> (\<exists>k \<in> set (caches_keys cs). k \<noteq> CACHE_NAME \<and> rej k))
   \<and> after_activate (fst (on_activate rej cs)) = Activated"
  using on_activate_storage on_activate_promise
  by (auto simp: after_activate_def split: promise.splits)

theorem activate_deletions_independent_witness:
  "on_activate (\<lambda>k. k = ''a'') [(''a'', []), (CACHE_NAME, []), (''b'', [])]
     = (Rejected, [(''a'', []), (CACHE_NAME, [])])
   \<and> after_activate (fst (on_activate (\<lambda>k. k = ''a'') [(''a'', []), (CACHE_NAME, []), (''b'', [])]))
     = Activated"
proof -
  have "fst (on_activate (\<lambda>k. k = ''a'') [(''a'', []), (CACHE_NAME, []), (''b'', [])]) = Rejected"
    using activate_deletions_independent
      [of "\<lambda>k. k = ''a''" "[(''a'', []), (CACHE_NAME, []), (''b'', [])]"]
    by (simp add: caches_keys_def CACHE_NAME_def)
  moreover have "snd (on_activate (\<lambda>k. k = ''a'') [(''a'', []), (CACHE_NAME, []), (''b'', [])])
      = [(''a'', []), (CACHE_NAME, [])]"
    using activate_deletions_independent
      [of "\<lambda>k. k = ''a''" "[(''a'', []), (CACHE_NAME, []), (''b'', [])]"]
    by (simp add: CACHE_NAME_def)
  ultimately show ?thesis
    by (simp add: prod_eq_iff after_activate_def)
qed

text \<open>
  C8. If any core asset cannot be fetched (its fetch rejects, or is answered with a
  status that is not ok or with a response the cache refuses), the promise of the
  install listener is rejected, so that the host fails the installation, and nothing is
  recovered locally: the storage is what opening the current bucket left, with no entry
  added.
\<close>

theorem install_fails_when_asset_unreachable:
  assumes "p \<in> set CORE_ASSETS" and "\<not> addable (same_origin p) (fetch (same_origin p))"
  shows "on_install fetch wfail cs = (Rejected, caches_open CACHE_NAME cs)
       \<and> after_install (fst (on_install fetch wfail cs)) = Redundant"
proof -
  from assms have "fetch_all fetch CORE_ASSETS = Rejected"
    by (rule fetch_all_Rejected)
  then show ?thesis
    by (simp add: on_install_def cache_addAll_def after_install_def)
qed

theorem install_fails_when_asset_unreachable_witness:
  "\<not> addable (same_origin ''/icon-512.png'') (icon_not_found (same_origin ''/icon-512.png''))
   \<and> on_install icon_not_found writes_taken [] = (Rejected, [(CACHE_NAME, [])])
   \<and> \<not> addable (same_origin ''/'') (offline (same_origin ''/''))
   \<and> on_install offline writes_taken [] = (Rejected, [(CACHE_NAME, [])])"
proof -
  have mem: "''/icon-512.png'' \<in> set CORE_ASSETS" and mem': "''/'' \<in> set CORE_ASSETS"
    by (simp_all add: CORE_ASSETS_def)
  have nf: "\<not> addable (same_origin ''/icon-512.png'') (icon_not_found (same_origin ''/icon-512.png''))"
    by (simp add: addable_def icon_not_found_def same_origin_def ok_status_def)
  have rj: "\<not> addable (same_origin ''/'') (offline (same_origin ''/''))"
    by (simp add: addable_def offline_def)
  show ?thesis
    using install_fails_when_asset_unreachable
        [where p = "''/icon-512.png''" and fetch = icon_not_found and cs = "[]"
           and wfail = writes_taken, OF mem nf]
      install_fails_when_asset_unreachable
        [where p = "''/''" and fetch = offline and cs = "[]" and wfail = writes_taken, OF mem' rj]
      nf rj
    by (simp add: caches_open_def caches_keys_def)
qed

text \<open>
  C9, as amended. Suppose that no bucket created before the current-version bucket has a
  match for the root request, that the host's put takes the response (it is not a 206
  response, has no \<open>*\<close> in \<^verbatim>\<open>Vary\<close>, and the write does not fail), and that the
  later fetch of the root carries the same headers as the first. If the root document is
  fetched through the listener while the network answers, and the pending write
  settles, then the later fetch of the root while the network fails responds with that
  stored response, and the page receives it rather than an error.
\<close>

theorem root_round_trip:
  assumes "method_name req = ''GET''" and "http_scheme (scheme req)" and "url req = ''/''"
    and "online req = Resolved res"
    and "status res \<noteq> 206" and "''*'' \<notin> set (vary res)" and "\<not> wfail req res"
    and "method_name req' = ''GET''" and "scheme req' = scheme req" and "url req' = ''/''"
    and "headers req' = headers req"
    and "down req' = Rejected"
    and "\<not> earlier_hit CACHE_NAME req cs"
  shows "entry (settle wfail (snd (on_fetch online cs req)) cs) CACHE_NAME req = Some res
       \<and> on_fetch down (settle wfail (snd (on_fetch online cs req)) cs) req'
           = (RespondWith (Some res), [])
       \<and> delivered down req'
             (fst (on_fetch down (settle wfail (snd (on_fetch online cs req)) cs) req'))
           = Resolved res"
proof -
  define cs' where "cs' = settle wfail (snd (on_fetch online cs req)) cs"
  have first: "snd (on_fetch online cs req) = [OpenAndPut CACHE_NAME req res]"
    using assms(1,4) by (simp add: on_fetch_def clone_def)
  have acc: "put_accepts req res"
    using assms(1,2,5,6) by (simp add: put_accepts_def)
  have settled: "cs' = store_in CACHE_NAME req res (caches_open CACHE_NAME cs)"
    unfolding cs'_def first using acc assms(7) by (rule settle_accepted)
  have stored: "entry cs' CACHE_NAME req = Some res"
    unfolding settled using caches_open_has acc by (rule entry_store_in_same)
  have found: "caches_match cs' req = Some res"
    unfolding settled using assms(13) acc by (rule caches_match_store_open)
  have "request_matches req' = request_matches req"
    using assms(1-3,8-11) by (intro request_matches_same_key) simp_all
  then have "caches_match cs' req' = caches_match cs' req"
    by (rule caches_match_same_key)
  with found have "caches_match cs' req' = Some res"
    by simp
  then have second: "on_fetch down cs' req' = (RespondWith (Some res), [])"
    using assms(8,12) by (simp add: on_fetch_def)
  from stored second show ?thesis
    unfolding cs'_def [symmetric] by (simp add: delivered_def)
qed

theorem root_round_trip_witness:
  "on_fetch offline
     (settle writes_taken
        (snd (on_fetch (serving new_page) [(CACHE_NAME, [(same_origin ''/'', old_page)])]
               root_request))
        [(CACHE_NAME, [(same_origin ''/'', old_page)])])
     (root_request\<lparr>fragment := ''top''\<rparr>)
   = (RespondWith (Some new_page), [])"
proof -
  have g: "method_name root_request = ''GET''" and sc: "http_scheme (scheme root_request)"
    and u: "url root_request = ''/''"
    by (simp_all add: root_request_def http_scheme_def)
  have on: "serving new_page root_request = Resolved new_page"
    by (simp add: serving_def)
  have st: "status new_page \<noteq> 206" and va: "''*'' \<notin> set (vary new_page)"
    by (simp_all add: new_page_def)
  have w: "\<not> writes_taken root_request new_page"
    by (simp add: writes_taken_def)
  have g': "method_name (root_request\<lparr>fragment := ''top''\<rparr>) = ''GET''"
    and sc': "scheme (root_request\<lparr>fragment := ''top''\<rparr>) = scheme root_request"
    and u': "url (root_request\<lparr>fragment := ''top''\<rparr>) = ''/''"
    and h': "headers (root_request\<lparr>fragment := ''top''\<rparr>) = headers root_request"
    by (simp_all add: root_request_def)
  have off: "offline (root_request\<lparr>fragment := ''top''\<rparr>) = Rejected"
    by (simp add: offline_def)
  have e: "\<not> earlier_hit CACHE_NAME root_request [(CACHE_NAME, [(same_origin ''/'', old_page)])]"
    by simp
  show ?thesis
    using root_round_trip
      [where req = root_request and req' = "root_request\<lparr>fragment := ''top''\<rparr>"
         and online = "serving new_page" and down = offline and res = new_page
         and wfail = writes_taken and cs = "[(CACHE_NAME, [(same_origin ''/'', old_page)])]",
       OF g sc u on st va w g' sc' u' h' off e]
    by simp
qed

text \<open>
  C9, as stated, fails: with the bucket of an earlier version still in the storage and
  holding an entry for the root, the new response is stored in the current bucket, but
  the later fetch responds with the old entry, which \<^verbatim>\<open>caches.match\<close> finds first.
\<close>

theorem root_round_trip_shadowed:
  "entry (settle writes_taken (snd (on_fetch (serving new_page) with_stale_bucket root_request))
            with_stale_bucket)
     CACHE_NAME root_request = Some new_page
   \<and> on_fetch offline
       (settle writes_taken (snd (on_fetch (serving new_page) with_stale_bucket root_request))
          with_stale_bucket)
       root_request
     = (RespondWith (Some old_page), [])
   \<and> old_page \<noteq> new_page"
  by (simp add: on_fetch_def root_request_def serving_def offline_def clone_def settle_def
      put_in_def put_accepts_def http_scheme_def writes_taken_def store_in_def store_def
      caches_open_def caches_keys_def with_stale_bucket_def entry_def cache_match_def
      request_matches_def same_origin_def CACHE_NAME_def old_page_def new_page_def)

text \<open>
  The other two conditions are needed as well. A partial response to the first fetch is
  not stored, so the later fetch responds with what the bucket held before. And when the
  stored response varies in a header and the later fetch carries another value for it,
  neither the request nor the root path finds the entry: the listener responds with
  \<^verbatim>\<open>undefined\<close> and the page receives an error.
\<close>

lemma root_round_trip_partial:
  "on_fetch offline
     (settle writes_taken
        (snd (on_fetch (serving partial_page) [(CACHE_NAME, [(same_origin ''/'', old_page)])]
               root_request))
        [(CACHE_NAME, [(same_origin ''/'', old_page)])])
     root_request
   = (RespondWith (Some old_page), [])
   \<and> old_page \<noteq> partial_page"
  by (simp add: on_fetch_def root_request_def serving_def offline_def clone_def settle_def
      put_in_def put_accepts_def caches_open_def caches_keys_def cache_match_def
      request_matches_def same_origin_def old_page_def partial_page_def)

lemma root_round_trip_other_headers:
  "entry (settle writes_taken (snd (on_fetch (serving negotiated_page) [] root_request)) [])
     CACHE_NAME root_request = Some negotiated_page
   \<and> on_fetch offline
       (settle writes_taken (snd (on_fetch (serving negotiated_page) [] root_request)) [])
       (root_request\<lparr>headers := [(''accept'', ''application/json'')]\<rparr>)
     = (RespondWith None, [])
   \<and> delivered offline (root_request\<lparr>headers := [(''accept'', ''application/json'')]\<rparr>)
       (RespondWith None) = Rejected"
  by (simp add: on_fetch_def root_request_def serving_def offline_def clone_def settle_def
      put_in_def put_accepts_def http_scheme_def writes_taken_def store_in_def store_def
      caches_open_def caches_keys_def entry_def cache_match_def request_matches_def
      header_value_def same_origin_def negotiated_page_def delivered_def)

text \<open>
  C10, as amended. For a GET request, the listener responds from the fallback chain,
  starting no write, exactly when the network fetch rejects. Every resolved response,
  whatever its status (404 or 500 as well), is what the listener responds with, and a
  write of it into the current bucket under the request is started; the write stores
  it when the request is an http or https one, the response is not a 206 response and
  has no \<open>*\<close> in \<^verbatim>\<open>Vary\<close>, and the host takes the write.
\<close>

theorem then_catch_split:
  assumes "method_name req = ''GET''"
  shows "(fetch req = Rejected \<longleftrightarrow>
            on_fetch fetch cs req =
              (RespondWith
                 (case caches_match cs req of
                    Some cached \<Rightarrow> Some cached
                  | None \<Rightarrow> caches_match cs (same_origin ''/'')),
               []))
       \<and> (\<forall>res. fetch req = Resolved res \<longrightarrow>
            on_fetch fetch cs req = (RespondWith (Some res), [OpenAndPut CACHE_NAME req res])
            \<and> (http_scheme (scheme req) \<and> status res \<noteq> 206 \<and> ''*'' \<notin> set (vary res)
                 \<and> \<not> wfail req res \<longrightarrow>
               entry (settle wfail (snd (on_fetch fetch cs req)) cs) CACHE_NAME req = Some res))"
proof -
  have split: "fetch req = Rejected \<longleftrightarrow>
      on_fetch fetch cs req =
        (RespondWith
           (case caches_match cs req of
              Some cached \<Rightarrow> Some cached
            | None \<Rightarrow> caches_match cs (same_origin ''/'')),
         [])"
    using assms by (auto simp: on_fetch_def split: promise.splits)
  have success: "on_fetch fetch cs req = (RespondWith (Some res), [OpenAndPut CACHE_NAME req res])
      \<and> (http_scheme (scheme req) \<and> status res \<noteq> 206 \<and> ''*'' \<notin> set (vary res)
           \<and> \<not> wfail req res \<longrightarrow>
         entry (settle wfail (snd (on_fetch fetch cs req)) cs) CACHE_NAME req = Some res)"
    if "fetch req = Resolved res" for res
  proof -
    have reply: "on_fetch fetch cs req = (RespondWith (Some res), [OpenAndPut CACHE_NAME req res])"
      using assms that by (simp add: on_fetch_def clone_def)
    have "entry (settle wfail (snd (on_fetch fetch cs req)) cs) CACHE_NAME req = Some res"
      if "http_scheme (scheme req)" and "status res \<noteq> 206" and "''*'' \<notin> set (vary res)"
        and "\<not> wfail req res"
    proof -
      from that(1-3) assms have "put_accepts req res"
        by (simp add: put_accepts_def)
      with that(4) show ?thesis
        by (simp add: reply entry_settle_accepted)
    qed
    with reply show ?thesis
      by blast
  qed
  from split success show ?thesis
    by blast
qed

theorem then_catch_split_witness:
  "on_fetch (serving \<lparr>status = 404, vary = [], body = ''not found''\<rparr>)
     [(CACHE_NAME, [(same_origin ''/'', old_page)])] report_request
   = (RespondWith (Some \<lparr>status = 404, vary = [], body = ''not found''\<rparr>),
      [OpenAndPut CACHE_NAME report_request \<lparr>status = 404, vary = [], body = ''not found''\<rparr>])
   \<and> entry
       (settle writes_taken
          (snd (on_fetch (serving \<lparr>status = 404, vary = [], body = ''not found''\<rparr>)
                 [(CACHE_NAME, [(same_origin ''/'', old_page)])] report_request))
          [(CACHE_NAME, [(same_origin ''/'', old_page)])])
       CACHE_NAME report_request
     = Some \<lparr>status = 404, vary = [], body = ''not found''\<rparr>"
proof -
  have g: "method_name report_request = ''GET''"
    by (simp add: report_request_def)
  have r: "serving \<lparr>status = 404, vary = [], body = ''not found''\<rparr> report_request
      = Resolved \<lparr>status = 404, vary = [], body = ''not found''\<rparr>"
    by (simp add: serving_def)
  have h: "http_scheme (scheme report_request)
      \<and> status \<lparr>status = 404, vary = [], body = ''not found''\<rparr> \<noteq> 206
      \<and> ''*'' \<notin> set (vary \<lparr>status = 404, vary = [], body = ''not found''\<rparr>)
      \<and> \<not> writes_taken report_request \<lparr>status = 404, vary = [], body = ''not found''\<rparr>"
    by (simp add: report_request_def http_scheme_def writes_taken_def)
  note split = then_catch_split
    [where req = report_request
       and fetch = "serving \<lparr>status = 404, vary = [], body = ''not found''\<rparr>"
       and wfail = writes_taken
       and cs = "[(CACHE_NAME, [(same_origin ''/'', old_page)])]", OF g]
  from split [THEN conjunct2, THEN spec, THEN mp, OF r] h show ?thesis
    by blast
qed

text \<open>
  C10, as stated, fails: a fulfilled response that varies in every header
  (\<^verbatim>\<open>Vary: *\<close>) is returned to the caller, but the host's put rejects it and the
  current bucket holds no entry for the request once the write has settled.
\<close>

theorem then_branch_varying_not_stored:
  "on_fetch (serving varying_page) [(CACHE_NAME, [])] report_request
     = (RespondWith (Some varying_page), [OpenAndPut CACHE_NAME report_request varying_page])
   \<and> settle writes_taken (snd (on_fetch (serving varying_page) [(CACHE_NAME, [])] report_request))
       [(CACHE_NAME, [])]
     = [(CACHE_NAME, [])]
   \<and> entry
       (settle writes_taken (snd (on_fetch (serving varying_page) [(CACHE_NAME, [])] report_request))
          [(CACHE_NAME, [])])
       CACHE_NAME report_request = None"
  by (simp add: on_fetch_def serving_def clone_def settle_def put_in_def put_accepts_def
      varying_page_def report_request_def caches_open_def caches_keys_def entry_def
      cache_match_def)

end
